theory Spec2Isabelle
  imports Complex_Main
begin

section \<open>Text\<close>

text \<open>
  The editor works on Python \<open>str\<close> values. A text is modelled as a \<open>string\<close> with one
  \<open>char\<close> per code point, which covers the code points below 256; \<open>length\<close> is
  Python's \<open>len\<close>. \<open>str.lower\<close> maps the upper-case letters of that range (A-Z and the
  Latin-1 capitals except the multiplication sign) to the letter 32 places later, and
  \<open>str.split()\<close> and \<open>str.strip()\<close> treat tab to carriage return, the four separators
  28-31, the space, NEL (133) and the no-break space (160) as whitespace.
\<close>

definition lower_char :: "char \<Rightarrow> char" where
  "lower_char c =
     (let n = (of_char c :: nat)
      in if (65 \<le> n \<and> n \<le> 90) \<or> (192 \<le> n \<and> n \<le> 222 \<and> n \<noteq> 215)
         then char_of (n + 32) else c)"

definition lower :: "string \<Rightarrow> string" where
  "lower s = map lower_char s"

definition is_space :: "char \<Rightarrow> bool" where
  "is_space c =
     (let n = (of_char c :: nat)
      in (9 \<le> n \<and> n \<le> 13) \<or> (28 \<le> n \<and> n \<le> 32) \<or> n = 133 \<or> n = 160)"

text \<open>\<open>s.split()\<close>: the maximal runs of non-whitespace characters, in order.\<close>

fun split_from :: "string \<Rightarrow> string \<Rightarrow> string list" where
  "split_from w [] = (if w = [] then [] else [w])"
| "split_from w (c # cs) =
     (if is_space c then (if w = [] then split_from [] cs else w # split_from [] cs)
      else split_from (w @ [c]) cs)"

definition split :: "string \<Rightarrow> string list" where
  "split s = split_from [] s"

text \<open>\<open>sep.join(ws)\<close>.\<close>

fun join :: "string \<Rightarrow> string list \<Rightarrow> string" where
  "join sep [] = []"
| "join sep [w] = w"
| "join sep (w # v # ws) = w @ sep @ join sep (v # ws)"

text \<open>\<open>s.strip()\<close>: whitespace removed at both ends.\<close>

definition strip :: "string \<Rightarrow> string" where
  "strip s = rev (dropWhile is_space (rev (dropWhile is_space s)))"

text \<open>
  The expression \<open>' '.join(text.lower().split())\<close>, which the editor writes out at every
  place where it builds a key, and the key \<open>f"{norm_source}|||{norm_target}"\<close>.
\<close>

definition normalize :: "string \<Rightarrow> string" where
  "normalize s = join '' '' (split (lower s))"

definition pair_key :: "string \<Rightarrow> string \<Rightarrow> string" where
  "pair_key norm_source norm_target = norm_source @ ''|||'' @ norm_target"

text \<open>Python's \<open>x or d\<close> for an optional string \<open>x\<close>: \<open>None\<close> and \<open>''\<close> are both false.\<close>

definition str_or :: "string option \<Rightarrow> string \<Rightarrow> string" where
  "str_or x d = (case x of None \<Rightarrow> d | Some s \<Rightarrow> if s = [] then d else s)"

definition falsy :: "string option \<Rightarrow> bool" where
  "falsy x = (x = None \<or> x = Some [])"

section \<open>The element tree\<close>

text \<open>
  An element below a \<open>seg\<close> (and the \<open>seg\<close> itself) has a text, children and a tail;
  \<open>itertext\<close> yields the non-empty texts in document order. A \<open>tuv\<close> is read through its
  three spellings of the language attribute and through \<open>find('seg')\<close>, its first
  \<open>seg\<close> child if it has one. A \<open>tu\<close> has an identity (\<open>uid\<close>: \<open>body.remove\<close> and the
  lookups compare elements by identity, and \<open>copy.deepcopy\<close> makes an element with a
  new one), the \<open>creationdate\<close> attribute and its \<open>tuv\<close> children.
\<close>

datatype elem = Elem "string option" "elem list" "string option"

text \<open>\<open>if t: yield t\<close> for a text or a tail.\<close>

definition yield_text :: "string option \<Rightarrow> string list" where
  "yield_text t = (case t of None \<Rightarrow> [] | Some s \<Rightarrow> if s = [] then [] else [s])"

fun etail :: "elem \<Rightarrow> string option" where
  "etail (Elem t cs ta) = ta"

fun itertext :: "elem \<Rightarrow> string list" where
  "itertext (Elem t cs ta) =
     yield_text t @ concat (map (\<lambda>e. itertext e @ yield_text (etail e)) cs)"

record tuv =
  ns_lang :: "string option"
  xml_lang :: "string option"
  plain_lang :: "string option"
  seg :: "elem option"

record tu =
  uid :: nat
  creationdate :: "string option"
  tuvs :: "tuv list"

text \<open>
  A loaded editor: the language pair fixed by \<open>load\<close>, and the \<open>tu\<close> children of the
  body in document order.
\<close>

record editor =
  source_lang :: string
  target_lang :: string
  body :: "tu list"

datatype error = ValueError | AttributeError | PatternError | ZeroDivisionError

definition get_seg_text :: "elem option \<Rightarrow> string" where
  "get_seg_text sg = (case sg of None \<Rightarrow> [] | Some e \<Rightarrow> strip (concat (itertext e)))"

definition tuv_lang_of :: "tuv \<Rightarrow> string" where
  "tuv_lang_of v = lower (str_or (ns_lang v) (str_or (xml_lang v) (str_or (plain_lang v) [])))"

text \<open>The loop of \<open>_get_tu_texts\<close> over the \<open>tuv\<close> children, on the pair
  \<open>(source_tuv, target_tuv)\<close>.\<close>

fun pick_tuvs :: "string \<Rightarrow> string \<Rightarrow> tuv list \<Rightarrow> tuv option \<times> tuv option
    \<Rightarrow> tuv option \<times> tuv option" where
  "pick_tuvs sl tg [] st = st"
| "pick_tuvs sl tg (v # vs) (s, t) =
     (if tuv_lang_of v = sl \<or> (s = None \<and> t = None) then pick_tuvs sl tg vs (Some v, t)
      else if tuv_lang_of v = tg \<or> t = None then pick_tuvs sl tg vs (s, Some v)
      else pick_tuvs sl tg vs (s, t))"

definition get_tu_texts :: "editor \<Rightarrow> tu \<Rightarrow> string option \<times> string option" where
  "get_tu_texts ed u =
     (let vs = tuvs u in
      if length vs < 2 then (None, None)
      else
        let (s, t) = pick_tuvs (source_lang ed) (target_lang ed) vs (None, None);
            source_tuv = (case s of None \<Rightarrow> vs ! 0 | Some v \<Rightarrow> v);
            target_tuv = (case t of None \<Rightarrow> (if length vs > 1 then vs ! 1 else vs ! 0)
                                   | Some v \<Rightarrow> v)
        in (Some (get_seg_text (seg source_tuv)), Some (get_seg_text (seg target_tuv))))"

section \<open>Removing empty segments\<close>

text \<open>
  \<open>remove_empty_segments\<close>: the classification loop with its \<open>by_type\<close> counters, then
  the removal of every classified unit. \<open>body.remove\<close> raises \<open>ValueError\<close> when the
  element is not a child.
\<close>

record by_type =
  missing_tuv :: nat
  invalid_structure :: nat
  both_empty :: nat
  empty_source :: nat
  empty_target :: nat

record empty_result =
  er_removed_count :: nat
  er_remaining_count :: nat
  er_total_before :: nat
  er_by_type :: by_type

fun body_remove :: "tu \<Rightarrow> tu list \<Rightarrow> tu list option" where
  "body_remove x [] = None"
| "body_remove x (u # us) =
     (if uid u = uid x then Some us else map_option ((#) u) (body_remove x us))"

fun remove_all :: "tu list \<Rightarrow> tu list \<Rightarrow> error + tu list" where
  "remove_all [] b = Inr b"
| "remove_all (x # xs) b =
     (case body_remove x b of None \<Rightarrow> Inl ValueError | Some b' \<Rightarrow> remove_all xs b')"

fun classify :: "editor \<Rightarrow> tu list \<Rightarrow> tu list \<times> by_type \<Rightarrow> tu list \<times> by_type" where
  "classify ed [] st = st"
| "classify ed (u # us) (to_remove, bt) =
     (if length (tuvs u) < 2
      then classify ed us (to_remove @ [u], bt\<lparr>missing_tuv := missing_tuv bt + 1\<rparr>)
      else case get_tu_texts ed u of
        (None, _) \<Rightarrow>
          classify ed us (to_remove @ [u], bt\<lparr>invalid_structure := invalid_structure bt + 1\<rparr>)
      | (Some source_text, target_text) \<Rightarrow>
          if source_text = [] \<and> falsy target_text
          then classify ed us (to_remove @ [u], bt\<lparr>both_empty := both_empty bt + 1\<rparr>)
          else if source_text = []
          then classify ed us (to_remove @ [u], bt\<lparr>empty_source := empty_source bt + 1\<rparr>)
          else if falsy target_text
          then classify ed us (to_remove @ [u], bt\<lparr>empty_target := empty_target bt + 1\<rparr>)
          else classify ed us (to_remove, bt))"

definition remove_empty_segments :: "editor \<Rightarrow> error + (editor \<times> empty_result)" where
  "remove_empty_segments ed =
     (let all_tus = body ed;
          total_before = length all_tus;
          (to_remove, bt) = classify ed all_tus
             ([], \<lparr>missing_tuv = 0, invalid_structure = 0, both_empty = 0,
                   empty_source = 0, empty_target = 0\<rparr>)
      in case remove_all to_remove (body ed) of
           Inl e \<Rightarrow> Inl e
         | Inr b \<Rightarrow> Inr (ed\<lparr>body := b\<rparr>,
             \<lparr>er_removed_count = length to_remove,
              er_remaining_count = total_before - length to_remove,
              er_total_before = total_before,
              er_by_type = bt\<rparr>))"

section \<open>Removing exact duplicates\<close>

text \<open>
  \<open>remove_exact_duplicates\<close>: one scan that collects the units whose key was seen
  before (and up to ten examples), then the removal of the collected units.
  \<open>target_text.lower()\<close> raises \<open>AttributeError\<close> on \<open>None\<close>.
\<close>

record dedup_result =
  removed_count :: nat
  unique_count :: nat
  total_before :: nat
  examples :: "(string \<times> string) list"

fun dedup_scan :: "editor \<Rightarrow> tu list \<Rightarrow> string set \<times> tu list \<times> (string \<times> string) list
    \<Rightarrow> error + (string set \<times> tu list \<times> (string \<times> string) list)" where
  "dedup_scan ed [] st = Inr st"
| "dedup_scan ed (u # us) (seen_keys, to_remove, exs) =
     (case get_tu_texts ed u of
        (None, _) \<Rightarrow> dedup_scan ed us (seen_keys, to_remove, exs)
      | (Some source_text, None) \<Rightarrow> Inl AttributeError
      | (Some source_text, Some target_text) \<Rightarrow>
          let key = pair_key (normalize source_text) (normalize target_text)
          in if key \<in> seen_keys
             then dedup_scan ed us (seen_keys, to_remove @ [u],
                    if length exs < 10
                    then exs @ [(take 80 source_text, take 80 target_text)] else exs)
             else dedup_scan ed us (insert key seen_keys, to_remove, exs))"

definition remove_exact_duplicates :: "editor \<Rightarrow> error + (editor \<times> dedup_result)" where
  "remove_exact_duplicates ed =
     (let all_tus = body ed;
          total = length all_tus
      in case dedup_scan ed all_tus ({}, [], []) of
           Inl e \<Rightarrow> Inl e
         | Inr (seen_keys, to_remove, exs) \<Rightarrow>
             (case remove_all to_remove (body ed) of
                Inl e \<Rightarrow> Inl e
              | Inr b \<Rightarrow> Inr (ed\<lparr>body := b\<rparr>,
                  \<lparr>removed_count = length to_remove,
                   unique_count = total - length to_remove,
                   total_before = total,
                   examples = exs\<rparr>)))"

text \<open>
  Notions for the statements: the key of a unit with non-null source text, and, for a
  key function \<open>K\<close> and the keys \<open>seen\<close> so far, the units of a list that a first-wins
  pass keeps and those it drops.
\<close>

definition tu_key :: "editor \<Rightarrow> tu \<Rightarrow> string option" where
  "tu_key ed u =
     (case get_tu_texts ed u of
        (Some s, Some t) \<Rightarrow> Some (pair_key (normalize s) (normalize t))
      | _ \<Rightarrow> None)"

fun first_occurrences :: "('a \<Rightarrow> 'k option) \<Rightarrow> 'k set \<Rightarrow> 'a list \<Rightarrow> 'a list" where
  "first_occurrences K seen [] = []"
| "first_occurrences K seen (u # us) =
     (case K u of
        None \<Rightarrow> u # first_occurrences K seen us
      | Some k \<Rightarrow> if k \<in> seen then first_occurrences K seen us
                  else u # first_occurrences K (insert k seen) us)"

fun later_occurrences :: "('a \<Rightarrow> 'k option) \<Rightarrow> 'k set \<Rightarrow> 'a list \<Rightarrow> 'a list" where
  "later_occurrences K seen [] = []"
| "later_occurrences K seen (u # us) =
     (case K u of
        None \<Rightarrow> later_occurrences K seen us
      | Some k \<Rightarrow> if k \<in> seen then u # later_occurrences K seen us
                  else later_occurrences K (insert k seen) us)"

section \<open>Filtering\<close>

text \<open>
  \<open>filter_tus\<close>. The regular-expression engine is a parameter: \<open>re_compile\<close> is
  \<open>re.compile(pattern, re.IGNORECASE)\<close>, which returns a compiled pattern or raises
  \<open>re.error\<close> (\<open>None\<close> here, reported as \<open>PatternError\<close>), and \<open>re_search\<close> says whether
  \<open>search\<close> finds a match. Both patterns are compiled before the first unit is read.
  \<open>str_less\<close> is Python's \<open><\<close> on strings, the lexicographic order of the code
  points.
\<close>

record 'r regex =
  re_compile :: "string \<Rightarrow> 'r option"
  re_search :: "'r \<Rightarrow> string \<Rightarrow> bool"

record criteria =
  source_pattern :: "string option"
  target_pattern :: "string option"
  date_from :: "string option"
  date_to :: "string option"
  invert :: bool

fun str_less :: "string \<Rightarrow> string \<Rightarrow> bool" where
  "str_less [] [] = False"
| "str_less [] (y # ys) = True"
| "str_less (x # xs) [] = False"
| "str_less (x # xs) (y # ys) =
     ((of_char x :: nat) < of_char y \<or> (x = y \<and> str_less xs ys))"

definition compile_opt :: "'r regex \<Rightarrow> string option \<Rightarrow> error + 'r option" where
  "compile_opt re p =
     (if falsy p then Inr None
      else case re_compile re (str_or p []) of
             None \<Rightarrow> Inl PatternError
           | Some r \<Rightarrow> Inr (Some r))"

definition tu_match :: "'r regex \<Rightarrow> 'r option \<Rightarrow> 'r option \<Rightarrow> criteria \<Rightarrow> tu
    \<Rightarrow> string \<Rightarrow> string option \<Rightarrow> bool" where
  "tu_match re src_re tgt_re c u source_text target_text =
     (let match = True;
          match = (case src_re of
                     Some r \<Rightarrow> if \<not> re_search re r source_text then False else match
                   | None \<Rightarrow> match);
          match = (case tgt_re of
                     Some r \<Rightarrow> if \<not> re_search re r (str_or target_text []) then False else match
                   | None \<Rightarrow> match);
          match =
            (if \<not> falsy (date_from c) \<or> \<not> falsy (date_to c)
             then let creation_date = (case creationdate u of None \<Rightarrow> [] | Some d \<Rightarrow> d);
                      date_part = (if creation_date \<noteq> [] then take 8 creation_date else []);
                      match = (if \<not> falsy (date_from c) \<and>
                                  str_less date_part (str_or (date_from c) [])
                               then False else match);
                      match = (if \<not> falsy (date_to c) \<and>
                                  str_less (str_or (date_to c) []) date_part
                               then False else match)
                  in match
             else match);
          match = (if invert c then \<not> match else match)
      in match)"

fun filter_loop :: "'r regex \<Rightarrow> 'r option \<Rightarrow> 'r option \<Rightarrow> criteria \<Rightarrow> editor
    \<Rightarrow> tu list \<Rightarrow> tu list \<Rightarrow> tu list" where
  "filter_loop re src_re tgt_re c ed [] matching = matching"
| "filter_loop re src_re tgt_re c ed (u # us) matching =
     (case get_tu_texts ed u of
        (None, _) \<Rightarrow> filter_loop re src_re tgt_re c ed us matching
      | (Some source_text, target_text) \<Rightarrow>
          if tu_match re src_re tgt_re c u source_text target_text
          then filter_loop re src_re tgt_re c ed us (matching @ [u])
          else filter_loop re src_re tgt_re c ed us matching)"

definition filter_tus :: "'r regex \<Rightarrow> editor \<Rightarrow> criteria \<Rightarrow> error + tu list" where
  "filter_tus re ed c =
     (case compile_opt re (source_pattern c) of
        Inl e \<Rightarrow> Inl e
      | Inr src_re \<Rightarrow>
          (case compile_opt re (target_pattern c) of
             Inl e \<Rightarrow> Inl e
           | Inr tgt_re \<Rightarrow> Inr (filter_loop re src_re tgt_re c ed (body ed) [])))"

text \<open>For the statements: the test that \<open>filter_loop\<close> makes on one unit.\<close>

definition selected :: "'r regex \<Rightarrow> 'r option \<Rightarrow> 'r option \<Rightarrow> criteria \<Rightarrow> editor \<Rightarrow> tu \<Rightarrow> bool" where
  "selected re src_re tgt_re c ed u =
     (case get_tu_texts ed u of
        (None, _) \<Rightarrow> False
      | (Some s, t) \<Rightarrow> tu_match re src_re tgt_re c u s t)"

section \<open>Merging\<close>

text \<open>
  \<open>merge_from\<close>, from the point where the other file is loaded. The state of the scan
  is the body of the target (\<open>children\<close>), the two lookups, the three counters and the
  identity that the next \<open>copy.deepcopy\<close> gives to its result (\<open>fresh\<close>, above every
  identity in either memory). \<open>existing_sources\<close> holds elements: what \<open>body.remove\<close>
  gets is the element stored there, and it raises \<open>ValueError\<close> when that element is not
  a child of the body. The result of the model is the target as the call leaves it,
  with the counts or the error raised.
\<close>

datatype strategy = Skip | Replace | Keep_both | Other_strategy

record merge_result =
  mr_added :: nat
  mr_skipped :: nat
  mr_replaced :: nat
  mr_total_after :: nat

record merge_state =
  children :: "tu list"
  existing_pairs :: "string set"
  existing_sources :: "string \<rightharpoonup> tu"
  added :: nat
  skipped :: nat
  replaced :: nat
  fresh :: nat

fun build_index :: "editor \<Rightarrow> tu list \<Rightarrow> string set \<times> (string \<rightharpoonup> tu)
    \<Rightarrow> string set \<times> (string \<rightharpoonup> tu)" where
  "build_index ed [] idx = idx"
| "build_index ed (u # us) (pairs, sources) =
     (case get_tu_texts ed u of
        (None, _) \<Rightarrow> build_index ed us (pairs, sources)
      | (Some src, tgt) \<Rightarrow>
          let norm_src = normalize src;
              norm_tgt = normalize (str_or tgt [])
          in build_index ed us
               (insert (pair_key norm_src norm_tgt) pairs, sources(norm_src \<mapsto> u)))"

definition deepcopy :: "nat \<Rightarrow> tu \<Rightarrow> tu" where
  "deepcopy new_id u = u\<lparr>uid := new_id\<rparr>"

fun merge_scan :: "strategy \<Rightarrow> editor \<Rightarrow> tu list \<Rightarrow> merge_state
    \<Rightarrow> merge_state \<times> error option" where
  "merge_scan strat other [] st = (st, None)"
| "merge_scan strat other (u # us) st =
     (case get_tu_texts other u of
        (None, _) \<Rightarrow> merge_scan strat other us st
      | (Some src, tgt) \<Rightarrow>
          let norm_src = normalize src;
              norm_tgt = normalize (str_or tgt []);
              key = pair_key norm_src norm_tgt
          in if key \<in> existing_pairs st
             then merge_scan strat other us (st\<lparr>skipped := skipped st + 1\<rparr>)
             else
               (case existing_sources st norm_src of
                  Some old_tu \<Rightarrow>
                    (case strat of
                       Skip \<Rightarrow> merge_scan strat other us (st\<lparr>skipped := skipped st + 1\<rparr>)
                     | Replace \<Rightarrow>
                         (case body_remove old_tu (children st) of
                            None \<Rightarrow> (st, Some ValueError)
                          | Some b \<Rightarrow>
                              merge_scan strat other us
                                (st\<lparr>children := b @ [deepcopy (fresh st) u],
                                    existing_sources := (existing_sources st)(norm_src \<mapsto> u),
                                    replaced := replaced st + 1,
                                    fresh := fresh st + 1\<rparr>))
                     | Keep_both \<Rightarrow>
                         merge_scan strat other us
                           (st\<lparr>children := children st @ [deepcopy (fresh st) u],
                               added := added st + 1,
                               fresh := fresh st + 1\<rparr>)
                     | Other_strategy \<Rightarrow> merge_scan strat other us st)
                | None \<Rightarrow>
                    merge_scan strat other us
                      (st\<lparr>children := children st @ [deepcopy (fresh st) u],
                          existing_pairs := insert key (existing_pairs st),
                          existing_sources := (existing_sources st)(norm_src \<mapsto> u),
                          added := added st + 1,
                          fresh := fresh st + 1\<rparr>)))"

definition fresh_uid :: "tu list \<Rightarrow> nat" where
  "fresh_uid us = Suc (foldr max (map uid us) 0)"

definition merge_from :: "strategy \<Rightarrow> editor \<Rightarrow> editor \<Rightarrow> editor \<times> (error + merge_result)" where
  "merge_from strat ed other =
     (let (pairs, sources) = build_index ed (body ed) ({}, Map.empty);
          st0 = \<lparr>children = body ed, existing_pairs = pairs, existing_sources = sources,
                 added = 0, skipped = 0, replaced = 0,
                 fresh = fresh_uid (body ed @ body other)\<rparr>;
          (st, err) = merge_scan strat other (body other) st0
      in (ed\<lparr>body := children st\<rparr>,
          case err of
            Some e \<Rightarrow> Inl e
          | None \<Rightarrow> Inr \<lparr>mr_added = added st, mr_skipped = skipped st,
                          mr_replaced = replaced st,
                          mr_total_after = length (children st)\<rparr>))"

section \<open>The similarity ratio\<close>

















section \<open>Fuzzy duplicates\<close>
















section \<open>Merging: notions for the statements\<close>

text \<open>
  For the statements about \<open>replace\<close>: the normalized source text of a unit and the key
  of a unit as the merge computes them, the state in which the scan of the other memory
  starts, and two predicates on the state of the scan, for a normalized source \<open>s\<close>.
  \<open>merge_inv\<close>: the children are distinct elements, each a unit of the target or a copy
  made during the scan; every element in the source lookup is a child with that source
  or an element of the other memory; exactly one child has the source \<open>s\<close>, and \<open>s\<close> is
  in the lookup. \<open>replaced_by\<close>: the lookup holds an element of the other memory for \<open>s\<close>,
  and every child with the source \<open>s\<close> has the texts of the unit \<open>u\<close>.
\<close>

definition norm_source :: "editor \<Rightarrow> tu \<Rightarrow> string option" where
  "norm_source ed u = map_option normalize (fst (get_tu_texts ed u))"

definition merge_key :: "editor \<Rightarrow> tu \<Rightarrow> string option" where
  "merge_key ed u =
     (case get_tu_texts ed u of
        (None, _) \<Rightarrow> None
      | (Some src, tgt) \<Rightarrow> Some (pair_key (normalize src) (normalize (str_or tgt []))))"




section \<open>Example memories\<close>

text \<open>
  Units with an English and a Spanish variant of plain text, for the concrete runs.
\<close>

definition plain_tuv :: "string \<Rightarrow> string \<Rightarrow> tuv" where
  "plain_tuv lg txt =
     \<lparr>ns_lang = Some lg, xml_lang = None, plain_lang = None,
      seg = Some (Elem (Some txt) [] None)\<rparr>"

definition plain_tu :: "nat \<Rightarrow> string \<Rightarrow> string \<Rightarrow> tu" where
  "plain_tu i src tgt =
     \<lparr>uid = i, creationdate = None, tuvs = [plain_tuv ''en'' src, plain_tuv ''es'' tgt]\<rparr>"

definition plain_editor :: "tu list \<Rightarrow> editor" where
  "plain_editor us = \<lparr>source_lang = ''en'', target_lang = ''es'', body = us\<rparr>"

definition cat_dog :: editor where
  "cat_dog = plain_editor
     [plain_tu 0 ''cat'' ''gato'', plain_tu 1 ''CAT'' ''Gato'', plain_tu 2 ''dog'' ''perro'']"

definition bars :: editor where
  "bars = plain_editor [plain_tu 0 ''a|||b'' ''c'', plain_tu 1 ''a'' ''b|||c'']"

definition gaps :: editor where
  "gaps = plain_editor
     [\<lparr>uid = 0, creationdate = None, tuvs = [plain_tuv ''en'' ''alone'']\<rparr>,
      \<lparr>uid = 1, creationdate = None,
        tuvs = [\<lparr>ns_lang = None, xml_lang = None, plain_lang = Some ''EN'', seg = None\<rparr>,
                \<lparr>ns_lang = None, xml_lang = None, plain_lang = None, seg = None\<rparr>]\<rparr>,
      plain_tu 2 ''dog'' ''perro'']"

definition hello_a :: editor where
  "hello_a = plain_editor [plain_tu 0 ''hello'' ''hola'']"

definition hello_b :: editor where
  "hello_b = plain_editor [plain_tu 1 ''hello'' ''hola'', plain_tu 2 ''hello'' ''ciao'']"

definition hello_c :: editor where
  "hello_c = plain_editor [plain_tu 1 ''hello'' ''ciao'', plain_tu 2 ''hello'' ''salut'']"

text \<open>
  A toy engine for the concrete runs: a pattern with an opening parenthesis does not
  compile, any other pattern matches the texts that contain it, letter case ignored.
\<close>

fun contains :: "string \<Rightarrow> string \<Rightarrow> bool" where
  "contains p [] = (p = [])"
| "contains p (c # cs) = (take (length p) (c # cs) = p \<or> contains p cs)"

definition literal_regex :: "string regex" where
  "literal_regex =
     \<lparr>re_compile = (\<lambda>p. if CHR ''('' \<in> set p then None else Some (lower p)),
      re_search = (\<lambda>r t. contains r (lower t))\<rparr>"




definition hallo_a :: editor where
  "hallo_a = \<lparr>source_lang = ''en'', target_lang = ''es'',
     body = [\<lparr>uid = 0, creationdate = None,
              tuvs = [plain_tuv ''en'' ''hallo'', plain_tuv ''es'' ''x'']\<rparr>]\<rparr>"

definition hallo_b :: editor where
  "hallo_b = \<lparr>source_lang = ''de'', target_lang = ''en'',
     body = [\<lparr>uid = 1, creationdate = None,
              tuvs = [plain_tuv ''en'' ''hello'', plain_tuv ''de'' ''hallo'']\<rparr>]\<rparr>"

definition bars_a :: editor where
  "bars_a = plain_editor [plain_tu 0 ''a'' ''x'']"

definition bars_b :: editor where
  "bars_b = plain_editor [plain_tu 1 ''a|||b'' ''c'', plain_tu 2 ''a'' ''b|||c'']"

section \<open>Properties of the text functions and the extraction\<close>

lemmas text_defs = lower_def lower_char_def is_space_def split_def strip_def normalize_def
  pair_key_def str_or_def yield_text_def get_seg_text_def tuv_lang_of_def char_of_def bit_Suc_0_iff

lemmas merge_defs = merge_from_def fresh_uid_def deepcopy_def Let_def

lemmas plain_defs = plain_tuv_def plain_tu_def plain_editor_def

lemma get_tu_texts_cases:
  "get_tu_texts ed u = (None, None) \<or> (\<exists>s t. get_tu_texts ed u = (Some s, Some t))"
  by (simp add: get_tu_texts_def Let_def split: prod.splits)

lemma tu_key_None: "tu_key ed u = None \<longleftrightarrow> fst (get_tu_texts ed u) = None"
  using get_tu_texts_cases[of ed u] by (auto simp: tu_key_def)

lemma dedup_scan_later:
  "\<exists>seen' exs'. dedup_scan ed us (seen, rem, exs) =
      Inr (seen', rem @ later_occurrences (tu_key ed) seen us, exs')"
proof (induction us arbitrary: seen rem exs)
  case Nil
  then show ?case by simp
next
  case (Cons u us)
  from get_tu_texts_cases[of ed u] show ?case
  proof
    assume "get_tu_texts ed u = (None, None)"
    then show ?thesis using Cons.IH[of seen rem exs] by (simp add: tu_key_def)
  next
    assume "\<exists>s t. get_tu_texts ed u = (Some s, Some t)"
    then obtain s t where st: "get_tu_texts ed u = (Some s, Some t)" by blast
    show ?thesis
    proof (cases "pair_key (normalize s) (normalize t) \<in> seen")
      case True
      then show ?thesis
        using st Cons.IH[of seen "rem @ [u]"] by (simp add: tu_key_def Let_def)
    next
      case False
      then show ?thesis
        using st Cons.IH[of "insert (pair_key (normalize s) (normalize t)) seen" rem exs]
        by (simp add: tu_key_def Let_def)
    qed
  qed
qed

section \<open>First-wins passes and removal by identity\<close>

lemma later_subset: "set (later_occurrences K seen us) \<subseteq> set us"
  by (induction us arbitrary: seen) (auto split: option.splits if_splits)

lemma later_distinct: "distinct us \<Longrightarrow> distinct (later_occurrences K seen us)"
proof (induction us arbitrary: seen)
  case Nil
  then show ?case by simp
next
  case (Cons u us)
  then show ?case using later_subset[of K _ us] by (auto split: option.splits)
qed

lemma filter_later:
  "distinct us \<Longrightarrow>
   filter (\<lambda>u. u \<notin> set (later_occurrences K seen us)) us = first_occurrences K seen us"
proof (induction us arbitrary: seen)
  case Nil
  then show ?case by simp
next
  case (Cons u us)
  have notin: "u \<notin> set (later_occurrences K s us)" for s
    using Cons.prems later_subset[of K s us] by auto
  show ?case
  proof (cases "K u")
    case None
    then show ?thesis using Cons notin by simp
  next
    case (Some k)
    show ?thesis
    proof (cases "k \<in> seen")
      case True
      have "filter (\<lambda>x. x \<noteq> u \<and> x \<notin> set (later_occurrences K seen us)) us
            = filter (\<lambda>x. x \<notin> set (later_occurrences K seen us)) us"
        using Cons.prems by (intro filter_cong) auto
      then show ?thesis using Some True Cons by simp
    next
      case False
      then show ?thesis using Some Cons notin by simp
    qed
  qed
qed

lemma body_remove_filter:
  "distinct (map uid b) \<Longrightarrow> x \<in> set b \<Longrightarrow> body_remove x b = Some (filter (\<lambda>u. u \<noteq> x) b)"
proof (induction b)
  case Nil
  then show ?case by simp
next
  case (Cons u b)
  show ?case
  proof (cases "u = x")
    case True
    have "filter (\<lambda>u. u \<noteq> x) b = b"
      using Cons.prems True by (auto simp: filter_id_conv)
    then show ?thesis using True by simp
  next
    case False
    then have "uid u \<noteq> uid x" using Cons.prems by auto
    then show ?thesis using False Cons by simp
  qed
qed

lemma remove_all_filter:
  "distinct (map uid b) \<Longrightarrow> distinct xs \<Longrightarrow> set xs \<subseteq> set b \<Longrightarrow>
   remove_all xs b = Inr (filter (\<lambda>u. u \<notin> set xs) b)"
proof (induction xs arbitrary: b)
  case Nil
  then show ?case by simp
next
  case (Cons x xs)
  have r: "body_remove x b = Some (filter (\<lambda>u. u \<noteq> x) b)"
    using Cons.prems by (intro body_remove_filter) auto
  have d: "distinct (map uid (filter (\<lambda>u. u \<noteq> x) b))"
    using Cons.prems(1) by (simp add: distinct_map_filter)
  have s: "set xs \<subseteq> set (filter (\<lambda>u. u \<noteq> x) b)"
    using Cons.prems by auto
  have "remove_all xs (filter (\<lambda>u. u \<noteq> x) b)
        = Inr (filter (\<lambda>u. u \<notin> set xs) (filter (\<lambda>u. u \<noteq> x) b))"
    using Cons.IH[OF d _ s] Cons.prems(2) by simp
  moreover have "filter (\<lambda>u. u \<notin> set xs) (filter (\<lambda>u. u \<noteq> x) b)
        = filter (\<lambda>u. u \<notin> set (x # xs)) b"
    by (auto intro: filter_cong)
  ultimately show ?case using r by simp
qed


lemma occurrences_length:
  "length (first_occurrences K seen us) + length (later_occurrences K seen us) = length us"
  by (induction us arbitrary: seen) (auto split: option.splits)

lemma first_occurrences_keys:
  "distinct (List.map_filter K (first_occurrences K seen us)) \<and>
   set (List.map_filter K (first_occurrences K seen us)) \<inter> seen = {} \<and>
   set (List.map_filter K (first_occurrences K seen us)) \<subseteq> set (List.map_filter K us)"
proof (induction us arbitrary: seen)
  case Nil
  then show ?case by (simp add: List.map_filter_simps)
next
  case (Cons u us)
  show ?case
  proof (cases "K u")
    case None
    then show ?thesis using Cons.IH[of seen] by (simp add: List.map_filter_simps)
  next
    case (Some k)
    show ?thesis
    proof (cases "k \<in> seen")
      case True
      then show ?thesis using Some Cons.IH[of seen] by (auto simp: List.map_filter_simps)
    next
      case False
      then show ?thesis using Some Cons.IH[of "insert k seen"]
        by (auto simp: List.map_filter_simps)
    qed
  qed
qed

lemma first_occurrences_null:
  "filter (\<lambda>u. K u = None) (first_occurrences K seen us) = filter (\<lambda>u. K u = None) us"
  by (induction us arbitrary: seen) (auto split: option.splits)

lemma later_occurrences_empty:
  "distinct (List.map_filter K us) \<Longrightarrow> set (List.map_filter K us) \<inter> seen = {} \<Longrightarrow>
   later_occurrences K seen us = []"
proof (induction us arbitrary: seen)
  case Nil
  then show ?case by simp
next
  case (Cons u us)
  show ?case
  proof (cases "K u")
    case None
    then show ?thesis using Cons by (simp add: List.map_filter_simps)
  next
    case (Some k)
    then have "k \<notin> seen" "distinct (List.map_filter K us)"
      "set (List.map_filter K us) \<inter> insert k seen = {}"
      using Cons.prems by (auto simp: List.map_filter_simps)
    then show ?thesis using Some Cons.IH[of "insert k seen"] by simp
  qed
qed

lemma first_occurrences_index:
  "first_occurrences K seen us =
     map ((!) us) (filter (\<lambda>i. case K (us ! i) of None \<Rightarrow> True
                               | Some k \<Rightarrow> k \<notin> seen \<and> (\<forall>j<i. K (us ! j) \<noteq> Some k))
                    [0..<length us])"
proof (induction us arbitrary: seen)
  case Nil
  then show ?case by simp
next
  case (Cons u us)
  let ?P = "\<lambda>s (xs::'a list) i. case K (xs ! i) of None \<Rightarrow> True
                               | Some k \<Rightarrow> k \<notin> s \<and> (\<forall>j<i. K (xs ! j) \<noteq> Some k)"
  have upt: "[0..<length (u # us)] = 0 # map Suc [0..<length us]"
    by (simp add: upt_conv_Cons map_Suc_upt del: upt_Suc)
  have all_Suc: "(\<forall>j<Suc i. Q j) \<longleftrightarrow> Q 0 \<and> (\<forall>j<i. Q (Suc j))" for i Q
    using less_Suc_eq_0_disj by auto
  have shift: "map ((!) (u # us)) (filter (?P seen (u # us)) (map Suc [0..<length us]))
      = map ((!) us) (filter (\<lambda>i. ?P seen (u # us) (Suc i)) [0..<length us])"
    by (simp add: filter_map comp_def)
  show ?case
  proof (cases "K u")
    case None
    have "?P seen (u # us) (Suc i) = ?P seen us i" for i
      using None by (simp add: all_Suc split: option.splits)
    then show ?thesis using None Cons.IH[of seen] shift upt by simp
  next
    case (Some k)
    show ?thesis
    proof (cases "k \<in> seen")
      case True
      have "?P seen (u # us) (Suc i) = ?P seen us i" for i
        using Some True by (auto simp: all_Suc split: option.splits)
      then show ?thesis using Some True Cons.IH[of seen] shift upt by simp
    next
      case False
      have "?P seen (u # us) (Suc i) = ?P (insert k seen) us i" for i
        using Some False by (auto simp: all_Suc split: option.splits)
      then show ?thesis using Some False Cons.IH[of "insert k seen"] shift upt by simp
    qed
  qed
qed


section \<open>Exact duplicates: the first pass and the second\<close>

lemma get_tu_texts_body [simp]: "get_tu_texts (ed\<lparr>body := b\<rparr>) = get_tu_texts ed"
  by (rule ext) (simp add: get_tu_texts_def Let_def)

lemma tu_key_body [simp]: "tu_key (ed\<lparr>body := b\<rparr>) = tu_key ed"
  by (rule ext) (simp add: tu_key_def)

lemma distinct_of_uids: "distinct (map uid b) \<Longrightarrow> distinct b"
  by (simp add: distinct_map)

lemma remove_exact_duplicates_eq:
  assumes "distinct (map uid (body ed))"
  shows "\<exists>exs. remove_exact_duplicates ed =
     Inr (ed\<lparr>body := first_occurrences (tu_key ed) {} (body ed)\<rparr>,
          \<lparr>removed_count = length (later_occurrences (tu_key ed) {} (body ed)),
           unique_count = length (body ed) - length (later_occurrences (tu_key ed) {} (body ed)),
           total_before = length (body ed),
           examples = exs\<rparr>)"
proof -
  let ?D = "later_occurrences (tu_key ed) {} (body ed)"
  obtain seen' exs' where scan: "dedup_scan ed (body ed) ({}, [], []) = Inr (seen', ?D, exs')"
    using dedup_scan_later[of ed "body ed" "{}" "[]" "[]"] by auto
  have d: "distinct (body ed)" using assms by (rule distinct_of_uids)
  have "remove_all ?D (body ed) = Inr (filter (\<lambda>u. u \<notin> set ?D) (body ed))"
    using assms later_distinct[OF d] later_subset[of "tu_key ed" "{}" "body ed"]
    by (intro remove_all_filter) auto
  then have "remove_all ?D (body ed) = Inr (first_occurrences (tu_key ed) {} (body ed))"
    using filter_later[OF d] by simp
  then show ?thesis using scan by (simp add: remove_exact_duplicates_def Let_def)
qed

text \<open>
  Claim C6: on a memory whose units are distinct elements, \<open>remove_exact_duplicates\<close>
  returns, and afterwards no two units with non-null source text have the same key;
  the surviving sequence consists, in document order, of the units with null source
  text and of the units whose key no earlier unit has (so the first unit of each key
  stays and every later one goes); the units with null source text are the same as
  before; and \<open>unique_count + removed_count = total_before\<close>, with \<open>total_before\<close> the
  number of units before and \<open>unique_count\<close> the number of units after.
\<close>

theorem remove_exact_duplicates_correct:
  assumes "distinct (map uid (body ed))"
  shows "\<exists>ed' r. remove_exact_duplicates ed = Inr (ed', r) \<and>
     distinct (List.map_filter (tu_key ed') (body ed')) \<and>
     body ed' = map ((!) (body ed))
        (filter (\<lambda>i. tu_key ed (body ed ! i) = None \<or>
                      (\<forall>j<i. tu_key ed (body ed ! j) \<noteq> tu_key ed (body ed ! i)))
           [0..<length (body ed)]) \<and>
     filter (\<lambda>u. fst (get_tu_texts ed u) = None) (body ed') =
       filter (\<lambda>u. fst (get_tu_texts ed u) = None) (body ed) \<and>
     unique_count r + removed_count r = total_before r \<and>
     total_before r = length (body ed) \<and> unique_count r = length (body ed')"
proof -
  let ?K = "tu_key ed"
  let ?F = "first_occurrences ?K {} (body ed)"
  let ?D = "later_occurrences ?K {} (body ed)"
  obtain exs where run: "remove_exact_duplicates ed =
     Inr (ed\<lparr>body := ?F\<rparr>,
          \<lparr>removed_count = length ?D, unique_count = length (body ed) - length ?D,
           total_before = length (body ed), examples = exs\<rparr>)"
    using remove_exact_duplicates_eq[OF assms] by blast
  have len: "length ?F + length ?D = length (body ed)"
    by (rule occurrences_length)
  have keys: "distinct (List.map_filter ?K ?F)"
    using first_occurrences_keys[of ?K "{}" "body ed"] by simp
  have cond: "(case ?K (body ed ! i) of None \<Rightarrow> True
               | Some k \<Rightarrow> k \<notin> {} \<and> (\<forall>j<i. ?K (body ed ! j) \<noteq> Some k))
        = (?K (body ed ! i) = None \<or> (\<forall>j<i. ?K (body ed ! j) \<noteq> ?K (body ed ! i)))" for i
    by (auto split: option.splits)
  have idx: "?F = map ((!) (body ed))
        (filter (\<lambda>i. ?K (body ed ! i) = None \<or> (\<forall>j<i. ?K (body ed ! j) \<noteq> ?K (body ed ! i)))
           [0..<length (body ed)])"
    using first_occurrences_index[of ?K "{}" "body ed"] by (simp only: cond)
  have nulls: "filter (\<lambda>u. fst (get_tu_texts ed u) = None) ?F =
       filter (\<lambda>u. fst (get_tu_texts ed u) = None) (body ed)"
    using first_occurrences_null[of ?K "{}" "body ed"] by (simp add: tu_key_None)
  show ?thesis
    using run len keys idx nulls by simp
qed

text \<open>
  Claim C8: a second run of \<open>remove_exact_duplicates\<close> right after a first one removes
  nothing and returns the memory as the first run left it.
\<close>

theorem remove_exact_duplicates_idempotent:
  assumes "distinct (map uid (body ed))"
    and "remove_exact_duplicates ed = Inr (ed1, r1)"
  shows "\<exists>r2. remove_exact_duplicates ed1 = Inr (ed1, r2) \<and> removed_count r2 = 0 \<and>
     unique_count r2 = total_before r2"
proof -
  let ?K = "tu_key ed"
  let ?F = "first_occurrences ?K {} (body ed)"
  have ed1: "ed1 = ed\<lparr>body := ?F\<rparr>"
    using remove_exact_duplicates_eq[OF assms(1)] assms(2) by auto
  have d: "distinct (body ed)" using assms(1) by (rule distinct_of_uids)
  have F: "?F = filter (\<lambda>u. u \<notin> set (later_occurrences ?K {} (body ed))) (body ed)"
    by (rule filter_later[OF d, symmetric])
  have d1: "distinct (map uid (body ed1))"
    unfolding ed1 using assms(1) by (subst F) (simp add: distinct_map_filter)
  have none: "later_occurrences (tu_key ed1) {} (body ed1) = []"
    unfolding ed1 using first_occurrences_keys[of ?K "{}" "body ed"]
    by (intro later_occurrences_empty) simp_all
  have same: "first_occurrences (tu_key ed1) {} (body ed1) = body ed1"
    using filter_later[OF distinct_of_uids[OF d1], of "tu_key ed1" "{}"] none by simp
  have "ed1\<lparr>body := body ed1\<rparr> = ed1" by simp
  then show ?thesis
    using remove_exact_duplicates_eq[OF d1] none same by auto
qed


lemma plain_texts:
  "get_tu_texts (plain_editor b) (plain_tu i s t) = (Some (strip s), Some (strip t))"
  by (simp add: get_tu_texts_def plain_defs tuv_lang_of_def str_or_def lower_def lower_char_def
      get_seg_text_def yield_text_def)

lemma plain_fields [simp]:
  "body (plain_editor b) = b" "source_lang (plain_editor b) = ''en''"
  "target_lang (plain_editor b) = ''es''" "uid (plain_tu i s t) = i"
  "(plain_editor b)\<lparr>body := b'\<rparr> = plain_editor b'"
  "length (tuvs (plain_tu i s t)) = 2"
  by (simp_all add: plain_defs)

lemma cat_dog_run:
  "remove_exact_duplicates cat_dog =
     Inr (plain_editor [plain_tu 0 ''cat'' ''gato'', plain_tu 2 ''dog'' ''perro''],
          \<lparr>removed_count = 1, unique_count = 2, total_before = 3,
           examples = [(''CAT'', ''Gato'')]\<rparr>)"
  by (simp add: cat_dog_def remove_exact_duplicates_def plain_texts Let_def text_defs)

text \<open>
  Claim C6 on the memory [("cat","gato"), ("CAT","Gato"), ("dog","perro")]: the second
  unit is removed.
\<close>

theorem remove_exact_duplicates_correct_witness:
  "distinct (map uid (body cat_dog)) \<and>
   (\<exists>ed' r. remove_exact_duplicates cat_dog = Inr (ed', r) \<and>
      map uid (body ed') = [0, 2] \<and> removed_count r = 1 \<and> unique_count r = 2 \<and>
      distinct (List.map_filter (tu_key ed') (body ed')))"
proof -
  have h: "distinct (map uid (body cat_dog))"
    by (simp add: cat_dog_def)
  from remove_exact_duplicates_correct[OF h] obtain ed' r where
    "remove_exact_duplicates cat_dog = Inr (ed', r)"
    "distinct (List.map_filter (tu_key ed') (body ed'))" by blast
  then show ?thesis using h cat_dog_run by auto
qed

text \<open>
  Claim C3 asks that the separator never collide with normalized text. In the code it
  does: normalization keeps the character "|", so the units ("a|||b", "c") and
  ("a", "b|||c"), which differ in source and in target, get the same key. On the memory
  of these two units \<open>remove_exact_duplicates\<close> removes the second as a duplicate of the
  first, and a merge of the second into a memory that holds the first counts it as
  skipped and does not add it.
\<close>

theorem pair_key_collision_drops_unit:
  "pair_key (normalize ''a|||b'') (normalize ''c'') =
     pair_key (normalize ''a'') (normalize ''b|||c'') \<and>
   normalize ''a|||b'' \<noteq> normalize ''a'' \<and> normalize ''c'' \<noteq> normalize ''b|||c'' \<and>
   remove_exact_duplicates bars =
     Inr (plain_editor [plain_tu 0 ''a|||b'' ''c''],
          \<lparr>removed_count = 1, unique_count = 1, total_before = 2,
           examples = [(''a'', ''b|||c'')]\<rparr>) \<and>
   merge_from Keep_both (plain_editor [plain_tu 0 ''a|||b'' ''c''])
       (plain_editor [plain_tu 1 ''a'' ''b|||c'']) =
     (plain_editor [plain_tu 0 ''a|||b'' ''c''],
      Inr \<lparr>mr_added = 0, mr_skipped = 1, mr_replaced = 0, mr_total_after = 1\<rparr>)"
  by (simp add: bars_def remove_exact_duplicates_def merge_defs plain_texts text_defs)

text \<open>
  Claim C8 on the memory [("cat","gato"), ("CAT","Gato"), ("dog","perro")]: the first
  run removes the second unit, the second run returns the same memory.
\<close>

theorem remove_exact_duplicates_idempotent_witness:
  "distinct (map uid (body cat_dog)) \<and>
   remove_exact_duplicates cat_dog =
     Inr (plain_editor [plain_tu 0 ''cat'' ''gato'', plain_tu 2 ''dog'' ''perro''],
          \<lparr>removed_count = 1, unique_count = 2, total_before = 3,
           examples = [(''CAT'', ''Gato'')]\<rparr>) \<and>
   (\<exists>r2. remove_exact_duplicates
            (plain_editor [plain_tu 0 ''cat'' ''gato'', plain_tu 2 ''dog'' ''perro'']) =
          Inr (plain_editor [plain_tu 0 ''cat'' ''gato'', plain_tu 2 ''dog'' ''perro''], r2) \<and>
        removed_count r2 = 0 \<and> unique_count r2 = total_before r2)"
proof -
  have h: "distinct (map uid (body cat_dog))"
    by (simp add: cat_dog_def)
  from remove_exact_duplicates_idempotent[OF h cat_dog_run] h cat_dog_run
  show ?thesis by blast
qed

lemma get_tu_texts_some:
  "2 \<le> length (tuvs u) \<Longrightarrow> \<exists>s t. get_tu_texts ed u = (Some s, Some t)"
  by (simp add: get_tu_texts_def Let_def split: prod.splits)

lemma classify_invalid:
  "invalid_structure (snd (classify ed us (r, bt))) = invalid_structure bt"
proof (induction us arbitrary: r bt)
  case Nil
  then show ?case by simp
next
  case (Cons u us)
  show ?case
  proof (cases "length (tuvs u) < 2")
    case True
    then show ?thesis using Cons.IH by simp
  next
    case False
    then obtain s t where "get_tu_texts ed u = (Some s, Some t)"
      using get_tu_texts_some[of u ed] by auto
    then show ?thesis using False Cons.IH by simp
  qed
qed

lemma classify_removed:
  "fst (classify ed us (r, bt)) =
     r @ filter (\<lambda>u. length (tuvs u) < 2 \<or>
                     (case get_tu_texts ed u of (None, t) \<Rightarrow> True
                      | (Some s, t) \<Rightarrow> s = [] \<or> falsy t)) us"
proof (induction us arbitrary: r bt)
  case Nil
  then show ?case by simp
next
  case (Cons u us)
  show ?case
  proof (cases "length (tuvs u) < 2")
    case True
    then show ?thesis using Cons.IH by simp
  next
    case False
    then obtain s t where "get_tu_texts ed u = (Some s, Some t)"
      using get_tu_texts_some[of u ed] by auto
    then show ?thesis using False Cons.IH by simp
  qed
qed

text \<open>
  Claim C10: for a unit with at least two variants \<open>_get_tu_texts\<close> returns a source
  and a target text, neither of them \<open>None\<close>; so \<open>remove_empty_segments\<close>, which asks
  for the texts only after its own test for fewer than two variants, never takes its
  \<open>invalid_structure\<close> branch: it returns, and the count it reports under that name is
  zero. The memory is any memory whose units are distinct elements.
\<close>

theorem invalid_structure_unreachable:
  assumes "distinct (map uid (body ed))"
  shows "(\<forall>u. 2 \<le> length (tuvs u) \<longrightarrow> (\<exists>s t. get_tu_texts ed u = (Some s, Some t))) \<and>
     (\<exists>ed' r. remove_empty_segments ed = Inr (ed', r) \<and>
        invalid_structure (er_by_type r) = 0)"
proof -
  let ?bt0 = "\<lparr>missing_tuv = 0, invalid_structure = 0, both_empty = 0,
                empty_source = 0, empty_target = 0\<rparr>"
  obtain rs bt where c: "classify ed (body ed) ([], ?bt0) = (rs, bt)"
    by (cases "classify ed (body ed) ([], ?bt0)")
  have bt: "invalid_structure bt = 0"
    using classify_invalid[of ed "body ed" "[]" ?bt0] c by simp
  have rs: "\<exists>P. rs = filter P (body ed)"
    using classify_removed[of ed "body ed" "[]" ?bt0] c by auto
  have "distinct (body ed)" using assms by (rule distinct_of_uids)
  then have "remove_all rs (body ed) = Inr (filter (\<lambda>u. u \<notin> set rs) (body ed))"
    using assms rs by (intro remove_all_filter) auto
  then show ?thesis
    using c bt get_tu_texts_some by (simp add: remove_empty_segments_def Let_def)
qed

text \<open>
  Claim C10 on a memory with a unit of one variant, a unit of two variants without
  segments and a complete unit.
\<close>

theorem invalid_structure_unreachable_witness:
  "distinct (map uid (body gaps)) \<and>
   (\<exists>ed' r. remove_empty_segments gaps = Inr (ed', r) \<and>
      invalid_structure (er_by_type r) = 0 \<and> missing_tuv (er_by_type r) = 1 \<and>
      both_empty (er_by_type r) = 1 \<and> map uid (body ed') = [2])"
proof -
  have h: "distinct (map uid (body gaps))"
    by (simp add: gaps_def)
  have run: "remove_empty_segments gaps =
     Inr (plain_editor [plain_tu 2 ''dog'' ''perro''],
          \<lparr>er_removed_count = 2, er_remaining_count = 1, er_total_before = 3,
           er_by_type = \<lparr>missing_tuv = 1, invalid_structure = 0, both_empty = 1,
                empty_source = 0, empty_target = 0\<rparr>\<rparr>)"
    by (simp add: gaps_def remove_empty_segments_def Let_def get_tu_texts_def
        plain_defs falsy_def text_defs)
  from invalid_structure_unreachable[OF h] run h show ?thesis by auto
qed

section \<open>Filtering: the inverted call\<close>

lemma filter_loop_filter:
  "filter_loop re src_re tgt_re c ed us acc = acc @ filter (selected re src_re tgt_re c ed) us"
  by (induction us arbitrary: acc) (auto simp: selected_def split: option.splits prod.splits)

lemma tu_match_invert:
  "tu_match re a b (c\<lparr>invert := True\<rparr>) u s t = (\<not> tu_match re a b (c\<lparr>invert := False\<rparr>) u s t)"
  by (simp add: tu_match_def Let_def)

lemma selected_invert:
  "selected re a b (c\<lparr>invert := True\<rparr>) ed u =
     (fst (get_tu_texts ed u) \<noteq> None \<and> \<not> selected re a b (c\<lparr>invert := False\<rparr>) ed u)"
  by (auto simp: selected_def tu_match_invert split: option.splits prod.splits)

lemma selected_nonnull: "selected re a b c ed u \<Longrightarrow> fst (get_tu_texts ed u) \<noteq> None"
  by (auto simp: selected_def split: option.splits prod.splits)

text \<open>
  Claim C7: for every memory, every engine and all criteria, if the patterns do not
  compile both calls raise the same error; otherwise \<open>filter_tus\<close> with \<open>invert=True\<close>
  returns, in document order, exactly the units with non-null source text that the call
  with \<open>invert=False\<close> does not return, and no unit that either call returns has a null
  source text.
\<close>

theorem filter_tus_invert:
  "case filter_tus re ed (c\<lparr>invert := False\<rparr>) of
     Inl e \<Rightarrow> filter_tus re ed (c\<lparr>invert := True\<rparr>) = Inl e
   | Inr xs \<Rightarrow>
       filter_tus re ed (c\<lparr>invert := True\<rparr>) =
         Inr (filter (\<lambda>u. fst (get_tu_texts ed u) \<noteq> None \<and> u \<notin> set xs) (body ed)) \<and>
       (\<forall>u \<in> set xs. fst (get_tu_texts ed u) \<noteq> None)"
proof (cases "compile_opt re (source_pattern c)")
  case (Inl e)
  then show ?thesis by (simp add: filter_tus_def)
next
  case src: (Inr src_re)
  show ?thesis
  proof (cases "compile_opt re (target_pattern c)")
    case (Inl e)
    then show ?thesis using src by (simp add: filter_tus_def)
  next
    case tgt: (Inr tgt_re)
    let ?S = "\<lambda>inv. selected re src_re tgt_re (c\<lparr>invert := inv\<rparr>) ed"
    have plain: "filter_tus re ed (c\<lparr>invert := False\<rparr>) = Inr (filter (?S False) (body ed))"
      using src tgt by (simp add: filter_tus_def filter_loop_filter)
    have inv: "filter_tus re ed (c\<lparr>invert := True\<rparr>) = Inr (filter (?S True) (body ed))"
      using src tgt by (simp add: filter_tus_def filter_loop_filter)
    have "filter (?S True) (body ed) =
          filter (\<lambda>u. fst (get_tu_texts ed u) \<noteq> None \<and> u \<notin> set (filter (?S False) (body ed)))
            (body ed)"
      by (rule filter_cong) (auto simp: selected_invert)
    moreover have "\<forall>u \<in> set (filter (?S False) (body ed)). fst (get_tu_texts ed u) \<noteq> None"
      by (auto dest: selected_nonnull)
    ultimately show ?thesis using plain inv by simp
  qed
qed


lemma filter_dog_run:
  "filter_tus literal_regex gaps
     \<lparr>source_pattern = Some ''DOG'', target_pattern = None, date_from = None,
      date_to = None, invert = False\<rparr> = Inr [plain_tu 2 ''dog'' ''perro'']"
  by (simp add: gaps_def filter_tus_def compile_opt_def literal_regex_def tu_match_def
      get_tu_texts_def plain_defs falsy_def Let_def text_defs)

text \<open>
  Claim C7 on a memory with a unit of null source text, a unit of empty texts and the
  unit ("dog","perro"), for the source pattern "DOG": the plain call returns the third
  unit, the inverted call the second, and neither returns the first.
\<close>

theorem filter_tus_invert_witness:
  "filter_tus literal_regex gaps
     \<lparr>source_pattern = Some ''DOG'', target_pattern = None, date_from = None,
      date_to = None, invert = False\<rparr> = Inr [plain_tu 2 ''dog'' ''perro''] \<and>
   map uid (body gaps) = [0, 1, 2] \<and>
   (\<exists>ys. filter_tus literal_regex gaps
     \<lparr>source_pattern = Some ''DOG'', target_pattern = None, date_from = None,
      date_to = None, invert = True\<rparr> = Inr ys \<and> map uid ys = [1])"
  using filter_tus_invert[of literal_regex gaps
      "\<lparr>source_pattern = Some ''DOG'', target_pattern = None, date_from = None,
        date_to = None, invert = False\<rparr>"] filter_dog_run
  by (simp add: gaps_def get_tu_texts_def plain_defs Let_def text_defs)

section \<open>Merging: the counts, and a failure midway\<close>

lemma body_remove_length: "body_remove x b = Some b' \<Longrightarrow> length b = Suc (length b')"
  by (induction b arbitrary: b') (auto split: if_splits)

lemma merge_scan_total:
  "merge_scan strat other us st = (st', None) \<Longrightarrow>
   length (children st') + added st = length (children st) + added st'"
proof (induction us arbitrary: st)
  case Nil
  then show ?case by simp
next
  case (Cons u us)
  show ?case
  proof (cases "get_tu_texts other u")
    case (Pair s t)
    show ?thesis
    proof (cases s)
      case None
      then show ?thesis using Cons Pair by simp
    next
      case (Some src)
      let ?key = "pair_key (normalize src) (normalize (str_or t []))"
      show ?thesis
      proof (cases "?key \<in> existing_pairs st")
        case True
        then show ?thesis
          using Cons.IH[of "st\<lparr>skipped := skipped st + 1\<rparr>"] Cons.prems Pair Some
          by (simp add: Let_def)
      next
        case False
        show ?thesis
        proof (cases "existing_sources st (normalize src)")
          case None
          then show ?thesis
            using Cons.IH Cons.prems Pair Some False
            by (fastforce simp: Let_def)
        next
          case old: (Some old_tu)
          show ?thesis
          proof (cases strat)
            case Skip
            then show ?thesis
              using Cons.IH[of "st\<lparr>skipped := skipped st + 1\<rparr>"] Cons.prems Pair Some False old
              by (simp add: Let_def)
          next
            case Replace
            show ?thesis
            proof (cases "body_remove old_tu (children st)")
              case None
              then show ?thesis
                using Cons.prems Pair Some False old Replace by (simp add: Let_def)
            next
              case (Some b)
              then show ?thesis
                using Cons.IH Cons.prems Pair \<open>s = Some src\<close> False old Replace
                  body_remove_length[OF Some]
                by (fastforce simp: Let_def)
            qed
          next
            case Keep_both
            then show ?thesis
              using Cons.IH Cons.prems Pair Some False old
              by (fastforce simp: Let_def)
          next
            case Other_strategy
            then show ?thesis
              using Cons.IH Cons.prems Pair Some False old by (simp add: Let_def)
          qed
        qed
      qed
    qed
  qed
qed

text \<open>
  Claim C5: whenever \<open>merge_from\<close> completes, for any strategy, the \<open>total_after\<close> it
  returns is the number of units the target had before plus the \<open>added\<close> it returns
  (and is the number of units the target has afterwards).
\<close>

theorem merge_from_total_after:
  assumes "merge_from strat ed other = (ed', Inr r)"
  shows "mr_total_after r = length (body ed) + mr_added r \<and>
         mr_total_after r = length (body ed')"
proof -
  obtain pairs sources where idx: "build_index ed (body ed) ({}, Map.empty) = (pairs, sources)"
    by (cases "build_index ed (body ed) ({}, Map.empty)")
  let ?st0 = "\<lparr>children = body ed, existing_pairs = pairs, existing_sources = sources,
                 added = 0, skipped = 0, replaced = 0,
                 fresh = fresh_uid (body ed @ body other)\<rparr>"
  obtain st err where scan: "merge_scan strat other (body other) ?st0 = (st, err)"
    by (cases "merge_scan strat other (body other) ?st0")
  have err: "err = None" and r: "mr_total_after r = length (children st)"
    "mr_added r = added st" and ed': "body ed' = children st"
    using assms idx scan by (auto simp: merge_from_def Let_def split: option.splits)
  from merge_scan_total[of strat other "body other" ?st0 st] scan err
  have "length (children st) = length (body ed) + added st" by simp
  then show ?thesis using r ed' by simp
qed


lemma hello_replace_run:
  "merge_from Replace hello_a hello_b =
     (plain_editor [deepcopy 3 (plain_tu 2 ''hello'' ''ciao'')],
      Inr \<lparr>mr_added = 0, mr_skipped = 1, mr_replaced = 1, mr_total_after = 1\<rparr>)"
  by (simp add: hello_a_def hello_b_def merge_defs plain_texts text_defs)

text \<open>
  Claim C5 on the scenario of the specification: A = [("hello","hola")] merged with
  B = [("hello","hola"), ("hello","ciao")] under \<open>replace\<close> skips one unit, replaces one
  and leaves one unit in A.
\<close>

theorem merge_from_total_after_witness:
  "merge_from Replace hello_a hello_b =
     (plain_editor [deepcopy 3 (plain_tu 2 ''hello'' ''ciao'')],
      Inr \<lparr>mr_added = 0, mr_skipped = 1, mr_replaced = 1, mr_total_after = 1\<rparr>) \<and>
   mr_total_after \<lparr>mr_added = 0, mr_skipped = 1, mr_replaced = 1, mr_total_after = 1\<rparr> =
     length (body hello_a) +
     mr_added \<lparr>mr_added = 0, mr_skipped = 1, mr_replaced = 1, mr_total_after = 1\<rparr>"
  using merge_from_total_after[OF hello_replace_run] hello_replace_run by simp

text \<open>
  Claim C2 fails on the code: A = [("hello","hola")] merged with
  B = [("hello","ciao"), ("hello","salut")] under \<open>replace\<close>. The first unit of B
  replaces the unit of A, and the lookup then holds the element of B instead of the
  copy that went into A; at the second unit \<open>body.remove\<close> is given that element, which
  is no child of A, and raises. The call fails with A already changed.
\<close>

theorem merge_from_replace_fails_midway:
  "merge_from Replace hello_a hello_c =
     (plain_editor [deepcopy 3 (plain_tu 1 ''hello'' ''ciao'')], Inl ValueError) \<and>
   body hello_a = [plain_tu 0 ''hello'' ''hola'']"
  by (simp add: hello_a_def hello_c_def merge_defs plain_texts text_defs)



section \<open>Fuzzy duplicates: the groups\<close>














section \<open>Merging: replace\<close>









lemma get_tu_texts_deepcopy [simp]: "get_tu_texts ed (deepcopy n v) = get_tu_texts ed v"
  by (simp add: get_tu_texts_def deepcopy_def Let_def)

lemma norm_source_deepcopy [simp]: "norm_source ed (deepcopy n v) = norm_source ed v"
  by (simp add: norm_source_def)

lemma uid_deepcopy [simp]: "uid (deepcopy n v) = n"
  by (simp add: deepcopy_def)










lemma get_tu_texts_uid [simp]: "get_tu_texts ed (v\<lparr>uid := n\<rparr>) = get_tu_texts ed v"
  by (simp add: get_tu_texts_def Let_def)

lemma norm_source_body [simp]: "norm_source (ed\<lparr>body := b\<rparr>) = norm_source ed"
  by (rule ext) (simp add: norm_source_def)




text \<open>
  The hypothesis on the language pair cannot be dropped. A unit is read with the
  language pair of the editor that holds it: a unit of B that B reads as
  ("hallo","hallo") replaces the unit ("hallo","x") of A, and A reads the copy as
  ("hello","hallo"), so that the source "hallo" is no longer in A at all.
\<close>

lemma replace_other_language_pair:
  "map (norm_source hallo_a) (body hallo_a) = [Some ''hallo''] \<and>
   map (norm_source hallo_b) (body hallo_b) = [Some ''hallo''] \<and>
   map (merge_key hallo_a) (body hallo_a) = [Some ''hallo|||x''] \<and>
   map (merge_key hallo_b) (body hallo_b) = [Some ''hallo|||hallo''] \<and>
   (\<exists>A' r. merge_from Replace hallo_a hallo_b = (A', Inr r) \<and> mr_replaced r = 1 \<and>
      map (norm_source A') (body A') = [Some ''hello''])"
  by (simp add: hallo_a_def hallo_b_def merge_defs norm_source_def merge_key_def
      get_tu_texts_def plain_tuv_def text_defs)

text \<open>
  Nor can the hypothesis on the keys of the earlier units of B. The unit ("a|||b","c")
  of B is new to A and puts its key into the pair set; the later unit ("a","b|||c") has
  the same key and is skipped, so the source "a" keeps the target "x" of A.
\<close>

lemma replace_colliding_key:
  "map (norm_source bars_b) (body bars_b) = [Some ''a|||b'', Some ''a''] \<and>
   map (merge_key bars_b) (body bars_b) = [Some ''a|||b|||c'', Some ''a|||b|||c''] \<and>
   (\<exists>A' r. merge_from Replace bars_a bars_b = (A', Inr r) \<and>
      mr_added r = 1 \<and> mr_skipped r = 1 \<and> mr_replaced r = 0 \<and>
      map (\<lambda>x. get_tu_texts A' x) (body A') =
        [(Some ''a'', Some ''x''), (Some ''a|||b'', Some ''c'')])"
  by (simp add: bars_a_def bars_b_def merge_defs norm_source_def merge_key_def
      plain_texts text_defs)

end
